theory Spec2Isabelle
  imports Complex_Main "HOL-Library.Multiset"
begin

section \<open>Errors\<close>

text \<open>
  Every exception the code of \<^verbatim>\<open>src/dataset.py\<close> can let escape is a value of \<open>error\<close>;
  a fallible operation returns \<open>error + 'a\<close>, with \<open>Inl\<close> for the exception.
  \<^item> \<open>ValueError\<close>: raised by \<^verbatim>\<open>train_test_split\<close> when the training part would be empty,
    and by \<^verbatim>\<open>DataLoader\<close> for a batch size that is not positive;
  \<^item> \<open>KeyError k\<close>: the dictionary lookup \<^verbatim>\<open>self._lookup_dict[split]\<close> on a missing key
    (the spec calls it \<^verbatim>\<open>InvalidSplit\<close>);
  \<^item> \<open>IndexError\<close>: \<^verbatim>\<open>DataFrame.iloc\<close> on a position out of bounds (the spec's
    \<^verbatim>\<open>IndexOutOfRange\<close>);
  \<^item> \<open>UnknownLabel l\<close>: the label vocabulary does not hold \<open>l\<close> (named as in the spec);
  \<^item> \<open>ResourceUnavailable\<close>: the stopword list of the language cannot be loaded;
  \<^item> \<open>FileError\<close>: \<^verbatim>\<open>pd.read_csv\<close> cannot read the file;
  \<^item> \<open>VectorizerError\<close>: whatever the vectorizer factory may raise;
  \<^item> \<open>RuntimeError\<close>: raised by \<^verbatim>\<open>tensor.to(device)\<close> for a device string that names no
    device, or a device that cannot be used.
\<close>

datatype error =
    ValueError
  | KeyError string
  | IndexError
  | UnknownLabel string
  | ResourceUnavailable
  | FileError
  | VectorizerError
  | RuntimeError

section \<open>Strings\<close>

text \<open>
  A Python \<^verbatim>\<open>str\<close> is modelled as a \<open>string\<close>, each \<open>char\<close> read as the code point
  of the same number (0 to 255, the Latin-1 range of Unicode), so that \<open>length\<close> counts
  code points as Python's \<^verbatim>\<open>len\<close> does. Strings with code points above 255 are outside
  the model. The three character tables below are those of CPython on this range.
\<close>

definition isspace :: "char \<Rightarrow> bool" where
  \<comment> \<open>\<^verbatim>\<open>str.isspace\<close>, which is also what \<^verbatim>\<open>\s\<close> matches and where \<^verbatim>\<open>str.split()\<close> cuts\<close>
  "isspace c =
     (let n = (of_char c :: nat)
      in (9 \<le> n \<and> n \<le> 13) \<or> (28 \<le> n \<and> n \<le> 32) \<or> n = 133 \<or> n = 160)"

definition isalnum :: "char \<Rightarrow> bool" where
  \<comment> \<open>alphabetic, decimal, digit or numeric\<close>
  "isalnum c =
     (let n = (of_char c :: nat)
      in (48 \<le> n \<and> n \<le> 57) \<or> (65 \<le> n \<and> n \<le> 90) \<or> (97 \<le> n \<and> n \<le> 122)
         \<or> n = 170 \<or> n = 178 \<or> n = 179 \<or> n = 181 \<or> n = 185 \<or> n = 186
         \<or> (188 \<le> n \<and> n \<le> 190)
         \<or> (192 \<le> n \<and> n \<le> 214) \<or> (216 \<le> n \<and> n \<le> 246) \<or> 248 \<le> n)"

definition is_word :: "char \<Rightarrow> bool" where
  \<comment> \<open>what \<^verbatim>\<open>\w\<close> matches: alphanumeric or the underscore\<close>
  "is_word c = (isalnum c \<or> c = CHR ''_'')"

definition lower_char :: "char \<Rightarrow> char" where
  "lower_char c =
     (let n = (of_char c :: nat)
      in if (65 \<le> n \<and> n \<le> 90) \<or> (192 \<le> n \<and> n \<le> 222 \<and> n \<noteq> 215)
         then char_of (n + 32) else c)"

definition str_lower :: "string \<Rightarrow> string" where
  \<comment> \<open>\<^verbatim>\<open>string.lower()\<close>\<close>
  "str_lower s = map lower_char s"

definition re_sub_nonword :: "string \<Rightarrow> string" where
  \<comment> \<open>\<^verbatim>\<open>re.sub(r"[^\w\s]", '', string)\<close>: every character that is neither a word
      character nor whitespace is replaced by the empty string\<close>
  "re_sub_nonword s = filter (\<lambda>c. is_word c \<or> isspace c) s"

fun split_from :: "string \<Rightarrow> string \<Rightarrow> string list" where
  \<comment> \<open>the scan of \<^verbatim>\<open>str.split()\<close>; the first argument is the word read so far\<close>
  "split_from w [] = (if w = [] then [] else [w])"
| "split_from w (c # cs) =
     (if isspace c then (if w = [] then split_from [] cs else w # split_from [] cs)
      else split_from (w @ [c]) cs)"

definition str_split :: "string \<Rightarrow> string list" where
  \<comment> \<open>\<^verbatim>\<open>string.split()\<close> with no separator: runs of whitespace separate, and no word
      is empty\<close>
  "str_split s = split_from [] s"

fun str_join :: "string \<Rightarrow> string list \<Rightarrow> string" where
  \<comment> \<open>\<^verbatim>\<open>sep.join(words)\<close>\<close>
  "str_join sep [] = []"
| "str_join sep [w] = w"
| "str_join sep (w # ws) = w @ sep @ str_join sep ws"

definition string_processing :: "string set \<Rightarrow> string \<Rightarrow> string" where
  \<comment> \<open>\<^verbatim>\<open>TextDataset.__string_processing\<close>; the first argument is \<^verbatim>\<open>self._stopwords\<close>,
      the only attribute the method reads\<close>
  "string_processing stopwords string =
     (let string1 = str_lower string;
          string2 = re_sub_nonword string1
      in str_join '' '' (filter (\<lambda>w. w \<notin> stopwords) (str_split string2)))"

definition kept_words :: "string set \<Rightarrow> string \<Rightarrow> string list" where
  \<comment> \<open>the list \<^verbatim>\<open>[w for w in string.split() if not w in self._stopwords]\<close> that
      \<open>string_processing\<close> joins\<close>
  "kept_words stopwords string =
     filter (\<lambda>w. w \<notin> stopwords) (str_split (re_sub_nonword (str_lower string)))"

section \<open>Data frames and the random split\<close>

text \<open>
  A record of the data set is a row of a \<^verbatim>\<open>pandas.DataFrame\<close> with the columns
  \<^verbatim>\<open>text\<close> and \<^verbatim>\<open>label\<close>; a row keeps its index label through every selection, which
  is what tells two rows with equal columns apart.
\<close>

record row =
  row_index :: nat
  row_text :: string
  row_label :: string

type_synonym dataframe = "row list"

definition iloc :: "dataframe \<Rightarrow> int \<Rightarrow> error + row" where
  \<comment> \<open>\<^verbatim>\<open>df.iloc[index]\<close> for an integer: positions \<open>-n\<close> to \<open>n - 1\<close> are valid, a negative
      one counts from the end, anything else raises \<^verbatim>\<open>IndexError\<close>\<close>
  "iloc df index =
     (let n = int (length df)
      in if index \<ge> n \<or> index < - n then Inl IndexError
         else Inr (df ! nat (if index < 0 then index + n else index)))"

definition safe_indexing :: "dataframe \<Rightarrow> nat list \<Rightarrow> dataframe" where
  \<comment> \<open>the rows at the given positions, in that order\<close>
  "safe_indexing df indices = map (\<lambda>i. df ! i) indices"

definition n_test_of :: "rat \<Rightarrow> nat \<Rightarrow> nat" where
  \<comment> \<open>\<^verbatim>\<open>ceil(test_size * n_samples)\<close>\<close>
  "n_test_of test_size n_samples = nat \<lceil>test_size * of_nat n_samples\<rceil>"

text \<open>
  \<^verbatim>\<open>sklearn.model_selection.train_test_split(df, test_size=t)\<close>, as the library computes
  it for a fraction \<open>t\<close>, with shuffling and no stratification: the test part has
  \<open>ceil(t * n)\<close> rows and the training part the other \<open>n - ceil(t * n)\<close>; an empty
  training part is a \<^verbatim>\<open>ValueError\<close>; the generator draws a permutation of the
  positions, whose first \<open>n_test\<close> entries select the test rows and the next
  \<open>n_train\<close> the training rows. The draw is the first argument: the theorems assume of
  it only that it is a permutation of \<open>[0..<n]\<close>. The fractions 0.2 and 0.25 are taken as
  exact rationals; in double precision the product with a row count below \<open>2^50\<close> has
  the same ceiling.
\<close>

definition train_test_split ::
  "nat list \<Rightarrow> dataframe \<Rightarrow> rat \<Rightarrow> error + (dataframe \<times> dataframe)" where
  "train_test_split permutation df test_size =
     (let n_samples = length df;
          n_test = n_test_of test_size n_samples;
          n_train = n_samples - n_test
      in if n_train = 0 then Inl ValueError
         else
           let ind_test = take n_test permutation;
               ind_train = take n_train (drop n_test permutation)
           in Inr (safe_indexing df ind_train, safe_indexing df ind_test))"

section \<open>The vectorizer\<close>

text \<open>
  Modelled from the spec: the class \<^verbatim>\<open>TextVectorizer\<close> of the module \<^verbatim>\<open>vectorizer\<close>, which
  \<^verbatim>\<open>dataset.py\<close> imports and which is not among the sources. The spec gives its contract:
  \<^verbatim>\<open>vectorize(text)\<close> returns a fixed-length numeric vector, and the label vocabulary maps
  a label string to an integer index. The type of the vectors is left open.
\<close>

record 'v TextVectorizer =
  vectorize :: "string \<Rightarrow> 'v"
  label_vocab :: "string \<rightharpoonup> nat"

text \<open>
  Modelled from the spec: \<^verbatim>\<open>label_vocab.lookup_token(label)\<close> of the missing module
  \<^verbatim>\<open>vectorizer\<close>, which returns the integer index of the label and fails with
  \<^verbatim>\<open>UnknownLabel\<close> if the label is absent.
\<close>

definition lookup_token :: "(string \<rightharpoonup> nat) \<Rightarrow> string \<Rightarrow> error + nat" where
  "lookup_token vocab token =
     (case vocab token of None \<Rightarrow> Inl (UnknownLabel token) | Some i \<Rightarrow> Inr i)"

section \<open>The data set\<close>

text \<open>
  The attributes of a \<^verbatim>\<open>TextDataset\<close>; \<open>train_data\<close> stands for \<^verbatim>\<open>self._train_data\<close> and
  so on for the others.
\<close>

record 'v TextDataset =
  vectorizer :: "'v TextVectorizer"
  train_data :: dataframe
  test_data :: dataframe
  val_data :: dataframe
  stopwords :: "string set"
  lookup_dict :: "string \<rightharpoonup> (dataframe \<times> nat)"
  target_split :: string
  target_data :: dataframe
  target_size :: nat

text \<open>
  A method that assigns to an attribute and may raise returns the object as it is when
  the method ends, together with the outcome: \<^verbatim>\<open>set_split\<close> stores the name before it
  looks the name up, so a \<^verbatim>\<open>KeyError\<close> leaves the new name in \<^verbatim>\<open>_target_split\<close>.
\<close>

definition set_split :: "'v TextDataset \<Rightarrow> string \<Rightarrow> 'v TextDataset \<times> (error + unit)" where
  "set_split self split =
     (let self1 = self\<lparr>target_split := split\<rparr>
      in case lookup_dict self1 split of
           None \<Rightarrow> (self1, Inl (KeyError split))
         | Some (d, n) \<Rightarrow> (self1\<lparr>target_data := d, target_size := n\<rparr>, Inr ()))"

text \<open>
  The constructor. Its first two arguments are the permutations drawn by the two calls
  of \<^verbatim>\<open>train_test_split\<close>; the third is the stopword resource, \<^verbatim>\<open>stopwords.words\<close> after
  \<^verbatim>\<open>nltk.download\<close>, a list of words for a language or a failure. Before the final
  \<^verbatim>\<open>set_split('train')\<close> the three target attributes do not exist yet; the model gives
  them empty values, which that call overwrites.
\<close>

definition TextDataset_init ::
  "nat list \<Rightarrow> nat list \<Rightarrow> (string \<Rightarrow> error + string list) \<Rightarrow>
     dataframe \<Rightarrow> 'v TextVectorizer \<Rightarrow> string \<Rightarrow> error + 'v TextDataset" where
  "TextDataset_init permutation1 permutation2 stopwords_words text_data vec language =
     (case train_test_split permutation1 text_data 0.2 of
        Inl e \<Rightarrow> Inl e
      | Inr (train0, test) \<Rightarrow>
        (case train_test_split permutation2 train0 0.25 of
           Inl e \<Rightarrow> Inl e
         | Inr (train, val) \<Rightarrow>
           (case stopwords_words language of
              Inl e \<Rightarrow> Inl e
            | Inr ws \<Rightarrow>
              (let self = \<lparr>vectorizer = vec, train_data = train, test_data = test,
                            val_data = val, stopwords = set ws,
                            lookup_dict = [''train'' \<mapsto> (train, length train),
                                           ''val'' \<mapsto> (val, length val),
                                           ''test'' \<mapsto> (test, length test)],
                            target_split = [], target_data = [], target_size = 0\<rparr>
               in case set_split self ''train'' of
                    (self', Inl e) \<Rightarrow> Inl e
                  | (self', Inr u) \<Rightarrow> Inr self'))))"

definition len :: "'v TextDataset \<Rightarrow> nat" where
  \<comment> \<open>\<^verbatim>\<open>__len__\<close>\<close>
  "len self = target_size self"

record ('x, 'y) data_dict =
  x_data :: 'x
  y_target :: 'y

definition getitem :: "'v TextDataset \<Rightarrow> int \<Rightarrow> error + ('v, nat) data_dict" where
  \<comment> \<open>\<^verbatim>\<open>__getitem__\<close>\<close>
  "getitem self index =
     (case iloc (target_data self) index of
        Inl e \<Rightarrow> Inl e
      | Inr row \<Rightarrow>
          (let row_text' = string_processing (stopwords self) (row_text row);
               text_vector = vectorize (vectorizer self) row_text'
           in case lookup_token (label_vocab (vectorizer self)) (row_label row) of
                Inl e \<Rightarrow> Inl e
              | Inr label_index \<Rightarrow> Inr \<lparr>x_data = text_vector, y_target = label_index\<rparr>))"

section \<open>Batches\<close>

text \<open>
  \<^verbatim>\<open>torch.utils.data.DataLoader\<close> over the data set: a sampler gives the order of the
  positions \<open>0\<close> to \<open>len - 1\<close> (a drawn permutation when \<open>shuffle\<close> is set, the
  sequential order otherwise), the batch sampler cuts it into lists of \<open>batch_size\<close>
  positions, each list is fetched item by item with \<open>getitem\<close>, and the items are
  collated into one dictionary of stacked tensors. A tensor is its values and the device
  it is on.
\<close>

record 'a tensor =
  device_of :: string
  values_of :: 'a

fun batch_sampler :: "nat \<Rightarrow> bool \<Rightarrow> nat list \<Rightarrow> nat list \<Rightarrow> nat list list" where
  \<comment> \<open>the loop of \<^verbatim>\<open>BatchSampler.__iter__\<close>; the third argument is the batch being filled\<close>
  "batch_sampler batch_size drop_last batch [] =
     (if length batch > 0 \<and> \<not> drop_last then [batch] else [])"
| "batch_sampler batch_size drop_last batch (idx # sampler) =
     (let batch' = batch @ [idx]
      in if length batch' = batch_size
         then batch' # batch_sampler batch_size drop_last [] sampler
         else batch_sampler batch_size drop_last batch' sampler)"

fun fetch :: "'v TextDataset \<Rightarrow> nat list \<Rightarrow> error + ('v, nat) data_dict list" where
  \<comment> \<open>\<^verbatim>\<open>[dataset[idx] for idx in batch]\<close>: the first failing item ends it\<close>
  "fetch self [] = Inr []"
| "fetch self (idx # batch) =
     (case getitem self (int idx) of
        Inl e \<Rightarrow> Inl e
      | Inr d \<Rightarrow> (case fetch self batch of Inl e \<Rightarrow> Inl e | Inr ds \<Rightarrow> Inr (d # ds)))"

definition default_collate ::
  "('v, nat) data_dict list \<Rightarrow> ('v list tensor, nat list tensor) data_dict" where
  "default_collate ds =
     \<lparr>x_data = \<lparr>device_of = ''cpu'', values_of = map x_data ds\<rparr>,
      y_target = \<lparr>device_of = ''cpu'', values_of = map y_target ds\<rparr>\<rparr>"

text \<open>
  Which device strings name a device that can be used depends on the machine; it is
  the argument \<open>available\<close> of what follows.
\<close>

definition to_device :: "(string \<Rightarrow> bool) \<Rightarrow> 'a tensor \<Rightarrow> string \<Rightarrow> error + 'a tensor" where
  \<comment> \<open>\<^verbatim>\<open>tensor.to(device)\<close>: the tensor on the device, or \<^verbatim>\<open>RuntimeError\<close>\<close>
  "to_device available t device =
     (if available device then Inr (t\<lparr>device_of := device\<rparr>) else Inl RuntimeError)"

text \<open>
  A generator is modelled by what it yields before it stops, and by the exception that
  stopped it, if one did: \<open>(batches, None)\<close> is a pass that ran to its end.
\<close>

fun yield_batches ::
  "(string \<Rightarrow> bool) \<Rightarrow> 'v TextDataset \<Rightarrow> string \<Rightarrow> nat list list \<Rightarrow>
     ('v list tensor, nat list tensor) data_dict list \<times> error option" where
  \<comment> \<open>the loop \<^verbatim>\<open>for data_dict in dataloader\<close> of \<^verbatim>\<open>generate_batches\<close>: a batch is
      fetched and collated, its two tensors are moved in the order of the keys, and
      only then is it yielded\<close>
  "yield_batches available self device [] = ([], None)"
| "yield_batches available self device (batch # batches) =
     (case fetch self batch of
        Inl e \<Rightarrow> ([], Some e)
      | Inr ds \<Rightarrow>
          (let data_dict = default_collate ds
           in case to_device available (x_data data_dict) device of
                Inl e \<Rightarrow> ([], Some e)
              | Inr x \<Rightarrow>
                  (case to_device available (y_target data_dict) device of
                     Inl e \<Rightarrow> ([], Some e)
                   | Inr y \<Rightarrow>
                       (let out_data_dict = \<lparr>x_data = x, y_target = y\<rparr>;
                            (rest, err) = yield_batches available self device batches
                        in (out_data_dict # rest, err)))))"

definition generate_batches ::
  "nat list \<Rightarrow> (string \<Rightarrow> bool) \<Rightarrow> 'v TextDataset \<Rightarrow> nat \<Rightarrow> bool \<Rightarrow> bool \<Rightarrow> string \<Rightarrow>
     ('v list tensor, nat list tensor) data_dict list \<times> error option" where
  \<comment> \<open>the first argument is the permutation the sampler draws when \<open>shuffle\<close> is set,
      the second the devices that can be used; a batch size that is not positive is
      refused by \<^verbatim>\<open>DataLoader\<close>\<close>
  "generate_batches permutation available self batch_size shuffle drop_last device =
     (if batch_size = 0 then ([], Some ValueError)
      else
        let sampler = (if shuffle then permutation else [0..<len self])
        in yield_batches available self device
             (batch_sampler batch_size drop_last [] sampler))"

text \<open>
  The number of items of a collated batch, and the items themselves, read back from
  its two stacked tensors.
\<close>

definition batch_len :: "('v list tensor, nat list tensor) data_dict \<Rightarrow> nat" where
  "batch_len b = length (values_of (y_target b))"

definition batch_items ::
  "('v list tensor, nat list tensor) data_dict \<Rightarrow> ('v, nat) data_dict list" where
  "batch_items b =
     map (\<lambda>(x, y). \<lparr>x_data = x, y_target = y\<rparr>)
       (zip (values_of (x_data b)) (values_of (y_target b)))"

section \<open>The factory\<close>

fun series_max :: "nat list \<Rightarrow> nat option" where
  \<comment> \<open>\<^verbatim>\<open>Series.max()\<close>: the greatest value, and \<^verbatim>\<open>NaN\<close> (here \<open>None\<close>) for no value\<close>
  "series_max [] = None"
| "series_max (x # xs) = Some (fold max xs x)"

definition seq_len_bound :: "dataframe \<Rightarrow> nat option" where
  \<comment> \<open>the value of \<^verbatim>\<open>seq_len\<close> the factory passes on; \<^verbatim>\<open>NaN > 1000\<close> is false\<close>
  "seq_len_bound text_data =
     (let seq_len = series_max (map (\<lambda>r. length (row_text r)) text_data)
      in case seq_len of
           None \<Rightarrow> None
         | Some m \<Rightarrow> if m > 1000 then Some 359 else Some m)"

text \<open>
  \<^verbatim>\<open>load_dataset_and_make_vectorizer\<close>. The file system is the argument \<open>read_csv\<close>, and
  the class method \<^verbatim>\<open>TextVectorizer.from_dataframe\<close>, which is in the missing module, is
  the argument \<open>from_dataframe\<close>: any function of the frame, the mode and the sequence
  length. The constructor is called with its default language.
\<close>

definition load_dataset_and_make_vectorizer ::
  "(string \<Rightarrow> error + dataframe) \<Rightarrow>
   (dataframe \<Rightarrow> string \<Rightarrow> nat option \<Rightarrow> error + 'v TextVectorizer) \<Rightarrow>
   nat list \<Rightarrow> nat list \<Rightarrow> (string \<Rightarrow> error + string list) \<Rightarrow>
   string \<Rightarrow> string \<Rightarrow> error + 'v TextDataset" where
  "load_dataset_and_make_vectorizer read_csv from_dataframe permutation1 permutation2
       stopwords_words text_csv vectorizer_mode =
     (case read_csv text_csv of
        Inl e \<Rightarrow> Inl e
      | Inr text_data \<Rightarrow>
          (let seq_len = seq_len_bound text_data
           in case from_dataframe text_data vectorizer_mode seq_len of
                Inl e \<Rightarrow> Inl e
              | Inr vec \<Rightarrow>
                  TextDataset_init permutation1 permutation2 stopwords_words
                    text_data vec ''english''))"

section \<open>Sequences of calls\<close>

text \<open>
  The public operations as values, and the object after one call and after a sequence
  of calls. A call that raises leaves the object as the method left it, and the caller
  may go on. Only \<^verbatim>\<open>set_split\<close> assigns to an attribute.
\<close>

datatype call =
    Set_split string
  | Size
  | Get_item int
  | Generate_batches "nat list" nat bool bool string

fun exec :: "'v TextDataset \<Rightarrow> call \<Rightarrow> 'v TextDataset" where
  "exec self (Set_split name) = fst (set_split self name)"
| "exec self Size = self"
| "exec self (Get_item index) = self"
| "exec self (Generate_batches permutation batch_size shuffle drop_last device) = self"

definition run :: "'v TextDataset \<Rightarrow> call list \<Rightarrow> 'v TextDataset" where
  "run self calls = fold (\<lambda>c s. exec s c) calls self"

text \<open>
  What the constructor establishes and every call keeps: the dictionary holds the three
  partitions with their lengths, and the target size is the length of the target data.
\<close>

definition consistent :: "'v TextDataset \<Rightarrow> bool" where
  "consistent self \<longleftrightarrow>
     lookup_dict self = [''train'' \<mapsto> (train_data self, length (train_data self)),
                         ''val'' \<mapsto> (val_data self, length (val_data self)),
                         ''test'' \<mapsto> (test_data self, length (test_data self))]
   \<and> target_size self = length (target_data self)
   \<and> target_data self \<in> {train_data self, val_data self, test_data self}"

section \<open>Example values\<close>

text \<open>
  A frame of \<open>n\<close> rows with the index labels \<open>0\<close> to \<open>n - 1\<close> that \<^verbatim>\<open>pd.read_csv\<close>
  gives, a vectorizer that knows both labels of the frame, and a stopword resource that
  has only an English list. The theorems are instantiated at these.
\<close>

definition example_frame :: "nat \<Rightarrow> dataframe" where
  "example_frame n =
     map (\<lambda>i. \<lparr>row_index = i, row_text = ''The Quick, FOX!! jumps'',
                row_label = (if even i then ''pos'' else ''neg'')\<rparr>) [0..<n]"

definition example_vectorizer :: "nat TextVectorizer" where
  "example_vectorizer = \<lparr>vectorize = length, label_vocab = [''pos'' \<mapsto> 1, ''neg'' \<mapsto> 0]\<rparr>"

definition example_words :: "string \<Rightarrow> error + string list" where
  "example_words language =
     (if language = ''english'' then Inr [''the'', ''a'', ''of''] else Inl ResourceUnavailable)"

text \<open>
  The instance built from 18 example rows: 10 in the training part, 4 in each of the
  others. The second vectorizer knows only the label \<open>pos\<close>.
\<close>

definition example_dataset :: "nat TextDataset" where
  "example_dataset =
     projr (TextDataset_init (rev [0..<18]) [0..<14] example_words (example_frame 18)
              example_vectorizer ''english'')"

definition example_vectorizer_pos :: "nat TextVectorizer" where
  "example_vectorizer_pos = \<lparr>vectorize = length, label_vocab = [''pos'' \<mapsto> 1]\<rparr>"

definition example_dataset_pos :: "nat TextDataset" where
  "example_dataset_pos =
     projr (TextDataset_init (rev [0..<18]) [0..<14] example_words (example_frame 18)
              example_vectorizer_pos ''english'')"

text \<open>
  A frame whose texts have 1000 to 1004 characters, a file system with two files, and
  a vectorizer factory whose vectors show the sequence length it was given.
\<close>

definition example_long_frame :: dataframe where
  "example_long_frame =
     map (\<lambda>i. \<lparr>row_index = i, row_text = replicate (1000 + i) CHR ''a'',
                row_label = ''pos''\<rparr>) [0..<5]"

definition example_read_csv :: "string \<Rightarrow> error + dataframe" where
  "example_read_csv path =
     (if path = ''long.csv'' then Inr example_long_frame
      else if path = ''short.csv'' then Inr (example_frame 18)
      else Inl FileError)"

definition example_from_dataframe ::
  "dataframe \<Rightarrow> string \<Rightarrow> nat option \<Rightarrow> error + nat TextVectorizer" where
  "example_from_dataframe df mode seq_len =
     Inr \<lparr>vectorize = (\<lambda>s. case seq_len of None \<Rightarrow> 0 | Some m \<Rightarrow> m),
          label_vocab = [''pos'' \<mapsto> 1, ''neg'' \<mapsto> 0]\<rparr>"

text \<open>A machine whose only device is the processor.\<close>

definition example_devices :: "string \<Rightarrow> bool" where
  "example_devices device = (device = ''cpu'')"

section \<open>Text normalization\<close>

lemma lower_char_idem: "lower_char (lower_char c) = lower_char c"
  by (auto simp: lower_char_def Let_def)

lemma isspace_space: "isspace CHR '' ''"
  by (simp add: isspace_def)

lemma lower_char_space: "lower_char CHR '' '' = CHR '' ''"
  by (simp add: lower_char_def)

lemma split_from_nonempty: "[] \<notin> set (split_from acc s)"
  by (induction acc s rule: split_from.induct) simp_all

lemma split_from_chars:
  "w \<in> set (split_from acc s) \<Longrightarrow> c \<in> set w \<Longrightarrow> c \<in> set acc \<or> c \<in> set s"
proof (induction acc s rule: split_from.induct)
  case (1 w)
  then show ?case by (simp split: if_splits)
next
  case (2 w c cs)
  then show ?case by (fastforce split: if_splits)
qed

lemma split_from_nospace:
  "\<forall>c\<in>set acc. \<not> isspace c \<Longrightarrow> w \<in> set (split_from acc s) \<Longrightarrow> c \<in> set w
     \<Longrightarrow> \<not> isspace c"
proof (induction acc s rule: split_from.induct)
  case (1 w)
  then show ?case by (simp split: if_splits)
next
  case (2 w c cs)
  then show ?case by (fastforce split: if_splits)
qed

lemma split_from_word:
  "\<forall>c\<in>set w. \<not> isspace c \<Longrightarrow> split_from acc (w @ s) = split_from (acc @ w) s"
  by (induction w arbitrary: acc) auto

lemma split_join:
  "\<forall>w\<in>set ws. w \<noteq> [] \<and> (\<forall>c\<in>set w. \<not> isspace c) \<Longrightarrow>
     split_from [] (str_join '' '' ws) = ws"
proof (induction ws rule: induct_list012)
  case 1
  then show ?case by simp
next
  case (2 w)
  then show ?case using split_from_word[of w "[]" "[]"] by simp
next
  case (3 w v vs)
  then show ?case using split_from_word[of w "[]" "'' '' @ str_join '' '' (v # vs)"]
    by (simp add: isspace_space)
qed

lemma str_join_chars:
  "c \<in> set (str_join sep ws) \<Longrightarrow> c \<in> set sep \<or> (\<exists>w\<in>set ws. c \<in> set w)"
  by (induction sep ws rule: str_join.induct) auto

lemma string_processing_kept:
  "string_processing sw s = str_join '' '' (kept_words sw s)"
  by (simp add: string_processing_def kept_words_def)

lemma kept_words_word:
  assumes "w \<in> set (kept_words sw s)"
  shows "w \<noteq> []" and "w \<notin> sw"
    and "c \<in> set w \<Longrightarrow> \<not> isspace c"
    and "c \<in> set w \<Longrightarrow> is_word c"
    and "c \<in> set w \<Longrightarrow> lower_char c = c"
proof -
  let ?t = "re_sub_nonword (str_lower s)"
  from assms have w: "w \<in> set (split_from [] ?t)" and "w \<notin> sw"
    by (simp_all add: kept_words_def str_split_def)
  then show "w \<notin> sw" by simp
  from w show "w \<noteq> []" using split_from_nonempty[of "[]" ?t] by auto
  show ns: "\<not> isspace c" if "c \<in> set w" for c
    using split_from_nospace[of "[]" w ?t c] w that by simp
  have ct: "c \<in> set ?t" if "c \<in> set w" for c
    using split_from_chars[OF w that] by simp
  show "is_word c" if "c \<in> set w" for c
    using ct[OF that] ns[OF that] by (simp add: re_sub_nonword_def)
  show "lower_char c = c" if "c \<in> set w" for c
  proof -
    from ct[OF that] obtain d where "c = lower_char d"
      by (auto simp: re_sub_nonword_def str_lower_def)
    then show ?thesis by (simp add: lower_char_idem)
  qed
qed

lemma string_processing_chars:
  assumes "c \<in> set (string_processing sw s)"
  shows "lower_char c = c" and "is_word c \<or> c = CHR '' ''"
proof -
  from assms have "c = CHR '' '' \<or> (\<exists>w\<in>set (kept_words sw s). c \<in> set w)"
    using str_join_chars[of c "'' ''" "kept_words sw s"]
    by (simp add: string_processing_kept)
  then show "lower_char c = c" and "is_word c \<or> c = CHR '' ''"
    using kept_words_word(4,5) lower_char_space by blast+
qed

lemma str_split_string_processing:
  "str_split (string_processing sw s) = kept_words sw s"
  unfolding string_processing_kept str_split_def
  by (rule split_join) (use kept_words_word(1,3) in blast)

lemma example_words_of_text:
  "str_split (re_sub_nonword (str_lower ''The Quick, FOX!! jumps''))
     = [''the'', ''quick'', ''fox'', ''jumps'']"
  by code_simp

text \<open>
  C4. The words of the normalized text are the words of the lowercased input, stripped
  of every character that is neither a word character nor whitespace, that are not
  stopwords, in their order; the normalized text is these words joined by single
  spaces; each of its characters is lowercase and is a word character or the space;
  none of its words is a stopword. For the input \<open>The Quick, FOX!! jumps\<close> and a stopword
  set that holds \<open>the\<close>, the word \<open>the\<close> is removed and the result is made of
  \<open>quick\<close>, \<open>fox\<close> and \<open>jumps\<close>, each kept unless it is a stopword itself: the
  result is exactly \<open>quick fox jumps\<close> when \<open>the\<close> is the one stopword of the input,
  as it is for the stopword list of a language.
\<close>

theorem string_processing_normalizes:
  "str_split (string_processing sw s)
     = filter (\<lambda>w. w \<notin> sw) (str_split (re_sub_nonword (str_lower s)))
   \<and> string_processing sw s = str_join '' '' (str_split (string_processing sw s))
   \<and> (\<forall>c\<in>set (string_processing sw s). lower_char c = c \<and> (is_word c \<or> c = CHR '' ''))
   \<and> (\<forall>w\<in>set (str_split (string_processing sw s)). w \<notin> sw)
   \<and> (''the'' \<in> sw \<longrightarrow>
        string_processing sw ''The Quick, FOX!! jumps''
          = str_join '' '' (filter (\<lambda>w. w \<notin> sw) [''quick'', ''fox'', ''jumps'']))
   \<and> (''the'' \<in> sw \<and> ''quick'' \<notin> sw \<and> ''fox'' \<notin> sw \<and> ''jumps'' \<notin> sw \<longrightarrow>
        string_processing sw ''The Quick, FOX!! jumps'' = ''quick fox jumps'')"
proof (intro conjI ballI impI)
  show "str_split (string_processing sw s)
          = filter (\<lambda>w. w \<notin> sw) (str_split (re_sub_nonword (str_lower s)))"
    by (simp add: str_split_string_processing kept_words_def)
  show "string_processing sw s = str_join '' '' (str_split (string_processing sw s))"
    by (subst str_split_string_processing) (rule string_processing_kept)
  show "lower_char c = c" if "c \<in> set (string_processing sw s)" for c
    using that by (rule string_processing_chars(1))
  show "is_word c \<or> c = CHR '' ''" if "c \<in> set (string_processing sw s)" for c
    using that by (rule string_processing_chars(2))
  show "w \<notin> sw" if "w \<in> set (str_split (string_processing sw s))" for w
    using that kept_words_word(2) by (simp add: str_split_string_processing)
  show "string_processing sw ''The Quick, FOX!! jumps''
          = str_join '' '' (filter (\<lambda>w. w \<notin> sw) [''quick'', ''fox'', ''jumps''])"
    if "''the'' \<in> sw"
    using that by (simp add: string_processing_kept kept_words_def example_words_of_text)
  show "string_processing sw ''The Quick, FOX!! jumps'' = ''quick fox jumps''"
    if "''the'' \<in> sw \<and> ''quick'' \<notin> sw \<and> ''fox'' \<notin> sw \<and> ''jumps'' \<notin> sw"
    using that by (simp add: string_processing_kept kept_words_def example_words_of_text)
qed

theorem string_processing_normalizes_witness:
  "''the'' \<in> {''the''} \<and> ''quick'' \<notin> {''the''} \<and> ''fox'' \<notin> {''the''} \<and> ''jumps'' \<notin> {''the''}
   \<and> string_processing {''the''} ''The Quick, FOX!! jumps'' = ''quick fox jumps''
   \<and> str_split (string_processing {''the''} ''The Quick, FOX!! jumps'')
       = [''quick'', ''fox'', ''jumps'']"
proof -
  have r: "string_processing {''the''} ''The Quick, FOX!! jumps'' = ''quick fox jumps''"
    using string_processing_normalizes[of "{''the''}" "''The Quick, FOX!! jumps''"] by simp
  have w: "str_split ''quick fox jumps'' = [''quick'', ''fox'', ''jumps'']"
    by code_simp
  show ?thesis
    unfolding r w by simp
qed

text \<open>
  C5. Text normalization is idempotent: for every string and every stopword set,
  normalizing the normalized string gives the same string.
\<close>

theorem string_processing_idempotent:
  "string_processing sw (string_processing sw s) = string_processing sw s"
proof -
  let ?r = "string_processing sw s"
  have l: "str_lower ?r = ?r"
    unfolding str_lower_def by (rule map_idI) (rule string_processing_chars(1))
  have f: "re_sub_nonword ?r = ?r"
    unfolding re_sub_nonword_def using string_processing_chars(2) isspace_space
    by (fastforce simp: filter_id_conv)
  have k: "filter (\<lambda>w. w \<notin> sw) (kept_words sw s) = kept_words sw s"
    by (simp add: kept_words_def)
  have "string_processing sw ?r = str_join '' '' (filter (\<lambda>w. w \<notin> sw) (str_split ?r))"
    by (simp add: string_processing_def[of sw "string_processing sw s"] l f)
  also have "\<dots> = str_join '' '' (kept_words sw s)"
    by (simp only: str_split_string_processing k)
  finally show ?thesis by (simp add: string_processing_kept)
qed

section \<open>The random split\<close>

lemma n_test_fifth: "n_test_of 0.2 n = (n + 4) div 5"
proof -
  have "\<lceil>(0.2 :: rat) * of_nat n\<rceil> = \<lceil>of_int (int n) / (of_int 5 :: rat)\<rceil>" by simp
  also have "\<dots> = - ((- int n) div 5)" by (simp only: ceiling_divide_eq_div)
  finally show ?thesis unfolding n_test_of_def by (simp; linarith)
qed

lemma n_test_quarter: "n_test_of 0.25 n = (n + 3) div 4"
proof -
  have "\<lceil>(0.25 :: rat) * of_nat n\<rceil> = \<lceil>of_int (int n) / (of_int 4 :: rat)\<rceil>" by simp
  also have "\<dots> = - ((- int n) div 4)" by (simp only: ceiling_divide_eq_div)
  finally show ?thesis unfolding n_test_of_def by (simp; linarith)
qed

lemma train_test_split_parts:
  assumes s: "train_test_split p df t = Inr (tr, te)"
    and p: "mset p = mset [0..<length df]"
    and k: "n_test_of t (length df) \<le> length df"
  shows "mset tr + mset te = mset df"
    and "length te = n_test_of t (length df)"
    and "length tr = length df - n_test_of t (length df)"
    and "0 < length tr"
proof -
  let ?n = "length df" and ?k = "n_test_of t (length df)"
  from p have lp: "length p = ?n"
    using mset_eq_length by fastforce
  from s have pos: "?n - ?k \<noteq> 0"
    by (auto simp: train_test_split_def Let_def split: if_splits)
  from s pos have tr: "tr = safe_indexing df (take (?n - ?k) (drop ?k p))"
    and te: "te = safe_indexing df (take ?k p)"
    by (auto simp: train_test_split_def Let_def)
  have tr': "tr = safe_indexing df (drop ?k p)"
    using tr lp by simp
  have pp: "mset (drop ?k p) + mset (take ?k p) = mset p"
    by (metis add.commute append_take_drop_id mset_append)
  have "mset tr + mset te = image_mset (\<lambda>i. df ! i) (mset (drop ?k p) + mset (take ?k p))"
    unfolding tr' te safe_indexing_def by simp
  also have "\<dots> = image_mset (\<lambda>i. df ! i) (mset p)"
    by (simp only: pp)
  also have "\<dots> = mset (map (\<lambda>i. df ! i) [0..<?n])"
    unfolding p by simp
  also have "\<dots> = mset df"
    by (simp only: map_nth)
  finally show "mset tr + mset te = mset df" .
  show "length te = ?k" using te lp k by (simp add: safe_indexing_def)
  show "length tr = ?n - ?k" using tr' lp by (simp add: safe_indexing_def)
  then show "0 < length tr" using pos by simp
qed

lemma init_fields:
  assumes "TextDataset_init p1 p2 sw df vec lang = Inr self"
  shows "\<exists>train0 ws.
           train_test_split p1 df 0.2 = Inr (train0, test_data self)
         \<and> train_test_split p2 train0 0.25 = Inr (train_data self, val_data self)
         \<and> sw lang = Inr ws \<and> stopwords self = set ws"
    and "vectorizer self = vec"
    and "lookup_dict self = [''train'' \<mapsto> (train_data self, length (train_data self)),
                             ''val'' \<mapsto> (val_data self, length (val_data self)),
                             ''test'' \<mapsto> (test_data self, length (test_data self))]"
    and "target_split self = ''train''"
    and "target_data self = train_data self"
    and "target_size self = length (train_data self)"
  using assms
  by (auto simp: TextDataset_init_def set_split_def Let_def split: sum.splits prod.splits)

lemma init_split:
  assumes i: "TextDataset_init p1 p2 sw df vec lang = Inr self"
    and p1: "mset p1 = mset [0..<length df]"
    and p2: "mset p2 = mset [0..<length df - (length df + 4) div 5]"
  shows "mset (train_data self) + mset (val_data self) + mset (test_data self) = mset df"
    and "length (test_data self) = (length df + 4) div 5"
    and "length (val_data self) = (length df - (length df + 4) div 5 + 3) div 4"
    and "length (train_data self)
           = length df - (length df + 4) div 5 - (length df - (length df + 4) div 5 + 3) div 4"
    and "0 < length (train_data self)"
proof -
  let ?n = "length df"
  from init_fields(1)[OF i] obtain train0
    where s1: "train_test_split p1 df 0.2 = Inr (train0, test_data self)"
      and s2: "train_test_split p2 train0 0.25 = Inr (train_data self, val_data self)"
    by blast
  have k1: "n_test_of 0.2 ?n \<le> ?n" unfolding n_test_fifth by simp
  note a = train_test_split_parts[OF s1 p1 k1]
  have l0: "length train0 = ?n - (?n + 4) div 5"
    using a(3) unfolding n_test_fifth .
  have k2: "n_test_of 0.25 (length train0) \<le> length train0" unfolding n_test_quarter by simp
  have p2': "mset p2 = mset [0..<length train0]" using p2 l0 by simp
  note b = train_test_split_parts[OF s2 p2' k2]
  show "mset (train_data self) + mset (val_data self) + mset (test_data self) = mset df"
    using a(1) b(1) by simp
  show "length (test_data self) = (?n + 4) div 5"
    using a(2) unfolding n_test_fifth .
  show "length (val_data self) = (?n - (?n + 4) div 5 + 3) div 4"
    using b(2) unfolding n_test_quarter l0 .
  show "length (train_data self) = ?n - (?n + 4) div 5 - (?n - (?n + 4) div 5 + 3) div 4"
    using b(3) unfolding n_test_quarter l0 .
  show "0 < length (train_data self)" by (rule b(4))
qed

lemma train_test_split_positions:
  assumes s: "train_test_split p df t = Inr (tr, te)"
    and p: "mset p = mset [0..<length df]"
  shows "tr = map (\<lambda>i. df ! i) (drop (n_test_of t (length df)) p)"
    and "te = map (\<lambda>i. df ! i) (take (n_test_of t (length df)) p)"
proof -
  let ?n = "length df" and ?k = "n_test_of t (length df)"
  have lp: "length p = ?n"
    using mset_eq_length[OF p] by simp
  from s have pos: "?n - ?k \<noteq> 0"
    by (auto simp: train_test_split_def Let_def split: if_splits)
  from s pos have "tr = safe_indexing df (take (?n - ?k) (drop ?k p))"
    and "te = safe_indexing df (take ?k p)"
    by (auto simp: train_test_split_def Let_def)
  then show "tr = map (\<lambda>i. df ! i) (drop ?k p)" and "te = map (\<lambda>i. df ! i) (take ?k p)"
    using lp by (simp_all add: safe_indexing_def)
qed

lemma init_positions:
  assumes i: "TextDataset_init p1 p2 sw df vec lang = Inr self"
    and p1: "mset p1 = mset [0..<length df]"
    and p2: "mset p2 = mset [0..<length df - (length df + 4) div 5]"
  shows "\<exists>tr va te.
           train_data self = map (\<lambda>i. df ! i) tr
         \<and> val_data self = map (\<lambda>i. df ! i) va
         \<and> test_data self = map (\<lambda>i. df ! i) te
         \<and> mset (tr @ va @ te) = mset [0..<length df]"
proof -
  let ?n = "length df"
  let ?k1 = "n_test_of 0.2 ?n"
  let ?q0 = "drop ?k1 p1"
  from init_fields(1)[OF i] obtain train0
    where s1: "train_test_split p1 df 0.2 = Inr (train0, test_data self)"
      and s2: "train_test_split p2 train0 0.25 = Inr (train_data self, val_data self)"
    by blast
  note a = train_test_split_positions[OF s1 p1]
  have lp1: "length p1 = ?n" using mset_eq_length[OF p1] by simp
  have l0: "length train0 = ?n - (?n + 4) div 5"
    unfolding a(1) n_test_fifth using lp1 by simp
  have lq: "length ?q0 = length train0"
    unfolding a(1) by simp
  have p2': "mset p2 = mset [0..<length train0]" using p2 l0 by simp
  note b = train_test_split_positions[OF s2 p2']
  let ?k2 = "n_test_of 0.25 (length train0)"
  have inb: "j < length ?q0" if "j \<in> set p2" for j
  proof -
    from that have "j \<in># mset p2" by simp
    then have "j \<in> set [0..<length train0]" unfolding p2' by simp
    then show ?thesis using lq by simp
  qed
  have nth0: "train0 ! j = df ! (?q0 ! j)" if "j \<in> set p2" for j
    unfolding a(1) using inb[OF that] by (simp add: nth_map del: nth_drop)
  have tr: "train_data self = map (\<lambda>i. df ! i) (map (\<lambda>j. ?q0 ! j) (drop ?k2 p2))"
    unfolding b(1) map_map comp_def
    by (rule map_cong[OF refl]) (use nth0 in_set_dropD in fast)
  have va: "val_data self = map (\<lambda>i. df ! i) (map (\<lambda>j. ?q0 ! j) (take ?k2 p2))"
    unfolding b(2) map_map comp_def
    by (rule map_cong[OF refl]) (use nth0 in_set_takeD in fast)
  have pp2: "mset (drop ?k2 p2) + mset (take ?k2 p2) = mset p2"
    by (metis add.commute append_take_drop_id mset_append)
  have pp1: "mset (drop ?k1 p1) + mset (take ?k1 p1) = mset p1"
    by (metis add.commute append_take_drop_id mset_append)
  have "mset (map (\<lambda>j. ?q0 ! j) (drop ?k2 p2) @ map (\<lambda>j. ?q0 ! j) (take ?k2 p2))
          = image_mset (\<lambda>j. ?q0 ! j) (mset (drop ?k2 p2) + mset (take ?k2 p2))"
    by simp
  also have "\<dots> = image_mset (\<lambda>j. ?q0 ! j) (mset [0..<length ?q0])"
    unfolding pp2 p2' lq ..
  also have "\<dots> = mset (map (\<lambda>j. ?q0 ! j) [0..<length ?q0])"
    by simp
  also have "\<dots> = mset ?q0"
    by (simp only: map_nth)
  finally have q: "mset (map (\<lambda>j. ?q0 ! j) (drop ?k2 p2) @ map (\<lambda>j. ?q0 ! j) (take ?k2 p2))
                     = mset ?q0" .
  have "mset (map (\<lambda>j. ?q0 ! j) (drop ?k2 p2) @ map (\<lambda>j. ?q0 ! j) (take ?k2 p2)
               @ take ?k1 p1) = mset ?q0 + mset (take ?k1 p1)"
    using q by simp
  also have "\<dots> = mset [0..<?n]"
    unfolding pp1 by (rule p1)
  finally show ?thesis
    using tr va a(2) by blast
qed

lemma length_example_frame: "length (example_frame n) = n"
  by (simp add: example_frame_def)

lemma distinct_example_frame: "distinct (example_frame n)"
  by (simp add: example_frame_def distinct_map inj_on_def)

text \<open>
  C1, as amended. For every constructed instance, the two random splits give three
  parts that are the rows of the input at three lists of positions, and the three lists
  together hold every position of the input exactly once: a record belongs to exactly
  one part, and the record counts of the parts sum to the input's. As sets of rows the
  parts are pairwise disjoint when the rows of the input are pairwise different (as
  they are by their index labels after \<^verbatim>\<open>pd.read_csv\<close>). With \<open>n\<close> input rows the test part has \<open>ceil(n / 5)\<close> rows, the
  validation part \<open>ceil((n - test) / 4)\<close> and the training part the rest; these are
  exactly 20, 20 and 60 percent of \<open>n\<close> when 5 divides \<open>n\<close>.
\<close>

theorem split_partition:
  assumes "TextDataset_init p1 p2 sw df vec lang = Inr self"
    and "mset p1 = mset [0..<length df]"
    and "mset p2 = mset [0..<length df - (length df + 4) div 5]"
  shows "(\<exists>tr va te.
            train_data self = map (\<lambda>i. df ! i) tr
          \<and> val_data self = map (\<lambda>i. df ! i) va
          \<and> test_data self = map (\<lambda>i. df ! i) te
          \<and> mset (tr @ va @ te) = mset [0..<length df])
       \<and> mset (train_data self) + mset (val_data self) + mset (test_data self) = mset df
       \<and> length (train_data self) + length (val_data self) + length (test_data self) = length df
       \<and> (distinct df \<longrightarrow>
            set (train_data self) \<inter> set (val_data self) = {}
          \<and> set (train_data self) \<inter> set (test_data self) = {}
          \<and> set (val_data self) \<inter> set (test_data self) = {})
       \<and> length (test_data self) = (length df + 4) div 5
       \<and> length (val_data self) = (length df - length (test_data self) + 3) div 4
       \<and> (5 dvd length df \<longrightarrow>
            5 * length (train_data self) = 3 * length df
          \<and> 5 * length (val_data self) = length df
          \<and> 5 * length (test_data self) = length df)"
proof -
  note s = init_split[OF assms]
  have m: "mset (train_data self @ val_data self @ test_data self) = mset df"
    using s(1) by (simp add: ac_simps)
  have len: "length (train_data self) + length (val_data self) + length (test_data self) = length df"
    using mset_eq_length[OF m] by simp
  have dis: "set (train_data self) \<inter> set (val_data self) = {}
          \<and> set (train_data self) \<inter> set (test_data self) = {}
          \<and> set (val_data self) \<inter> set (test_data self) = {}" if "distinct df"
  proof -
    from that have "distinct (train_data self @ val_data self @ test_data self)"
      using mset_eq_imp_distinct_iff[OF m] by simp
    then show ?thesis by auto
  qed
  have ex: "5 * length (train_data self) = 3 * length df
          \<and> 5 * length (val_data self) = length df
          \<and> 5 * length (test_data self) = length df" if "5 dvd length df"
  proof -
    from that obtain k where k: "length df = 5 * k" by (auto simp: dvd_def)
    have t: "length (test_data self) = k" using s(2) k by simp
    have v: "length (val_data self) = k" using s(3) k by simp
    show ?thesis using len t v k by simp
  qed
  have sz: "length (val_data self) = (length df - length (test_data self) + 3) div 4"
    using s(2) s(3) by simp
  show ?thesis
    by (intro conjI impI)
      (rule init_positions[OF assms], rule s(1), rule len, use dis in blast, use dis in blast,
        use dis in blast, rule s(2), rule sz, use ex in blast, use ex in blast, use ex in blast)
qed

lemma example_init_10:
  "\<not> isl (TextDataset_init (rev [0..<10]) [0..<8] example_words (example_frame 10)
             example_vectorizer ''english'')"
  by code_simp

theorem split_partition_witness:
  "\<not> isl (TextDataset_init (rev [0..<10]) [0..<8] example_words (example_frame 10)
             example_vectorizer ''english'')
   \<and> mset (rev [0..<10]) = mset [0..<length (example_frame 10)]
   \<and> distinct (example_frame 10) \<and> 5 dvd length (example_frame 10)
   \<and> length (train_data (projr (TextDataset_init (rev [0..<10]) [0..<8] example_words
        (example_frame 10) example_vectorizer ''english''))) = 6
   \<and> length (val_data (projr (TextDataset_init (rev [0..<10]) [0..<8] example_words
        (example_frame 10) example_vectorizer ''english''))) = 2
   \<and> length (test_data (projr (TextDataset_init (rev [0..<10]) [0..<8] example_words
        (example_frame 10) example_vectorizer ''english''))) = 2
   \<and> set (train_data (projr (TextDataset_init (rev [0..<10]) [0..<8] example_words
        (example_frame 10) example_vectorizer ''english'')))
     \<inter> set (test_data (projr (TextDataset_init (rev [0..<10]) [0..<8] example_words
        (example_frame 10) example_vectorizer ''english''))) = {}"
proof -
  let ?r = "TextDataset_init (rev [0..<10]) [0..<8] example_words (example_frame 10)
              example_vectorizer ''english''"
  have h1: "?r = Inr (projr ?r)"
    using example_init_10 by simp
  have h2: "mset (rev [0..<10]) = mset [0..<length (example_frame 10)]"
    by (simp add: length_example_frame)
  have h3: "mset [0..<8] = mset [0..<length (example_frame 10) - (length (example_frame 10) + 4) div 5]"
    by (simp add: length_example_frame)
  show ?thesis
    using split_partition[OF h1 h2 h3] example_init_10
    by (simp add: length_example_frame distinct_example_frame)
qed

text \<open>
  C1, as stated, fails: 7 rows are split into 3, 2 and 2, and 3 is not 60 percent of 7.
\<close>

theorem split_sizes_counterexample:
  "\<not> isl (TextDataset_init [0..<7] [0..<5] example_words (example_frame 7)
             example_vectorizer ''english'')
   \<and> length (train_data (projr (TextDataset_init [0..<7] [0..<5] example_words
        (example_frame 7) example_vectorizer ''english''))) = 3
   \<and> length (val_data (projr (TextDataset_init [0..<7] [0..<5] example_words
        (example_frame 7) example_vectorizer ''english''))) = 2
   \<and> length (test_data (projr (TextDataset_init [0..<7] [0..<5] example_words
        (example_frame 7) example_vectorizer ''english''))) = 2
   \<and> 100 * length (train_data (projr (TextDataset_init [0..<7] [0..<5] example_words
        (example_frame 7) example_vectorizer ''english''))) \<noteq> 60 * length (example_frame 7)"
  by code_simp

section \<open>Selecting a split\<close>

lemma set_split_frame:
  "\<exists>d n. fst (set_split self name) = self\<lparr>target_split := name, target_data := d, target_size := n\<rparr>"
proof (cases "lookup_dict self name")
  case None
  then have "fst (set_split self name)
      = self\<lparr>target_split := name, target_data := target_data self, target_size := target_size self\<rparr>"
    by (simp add: set_split_def)
  then show ?thesis by blast
next
  case (Some dn)
  then show ?thesis
    by (cases dn) (auto simp: set_split_def)
qed

lemma exec_frame:
  "\<exists>s d n. exec self c = self\<lparr>target_split := s, target_data := d, target_size := n\<rparr>"
proof (cases c)
  case (Set_split name)
  then show ?thesis using set_split_frame[of self name] by auto
next
  case Size
  have "self = self\<lparr>target_split := target_split self, target_data := target_data self,
                       target_size := target_size self\<rparr>" by simp
  with Size show ?thesis by (metis exec.simps(2))
next
  case (Get_item i)
  have "self = self\<lparr>target_split := target_split self, target_data := target_data self,
                       target_size := target_size self\<rparr>" by simp
  with Get_item show ?thesis by (metis exec.simps(3))
next
  case (Generate_batches p b sh dl dev)
  have "self = self\<lparr>target_split := target_split self, target_data := target_data self,
                       target_size := target_size self\<rparr>" by simp
  with Generate_batches show ?thesis by (metis exec.simps(4))
qed

lemma run_Cons: "run self (c # calls) = run (exec self c) calls"
  by (simp add: run_def)

lemma run_frame:
  "\<exists>s d n. run self calls = self\<lparr>target_split := s, target_data := d, target_size := n\<rparr>"
proof (induction calls arbitrary: self)
  case Nil
  have "self = self\<lparr>target_split := target_split self, target_data := target_data self,
                       target_size := target_size self\<rparr>" by simp
  then show ?case unfolding run_def by (metis fold_simps(1))
next
  case (Cons c calls)
  from exec_frame[of self c] obtain s d n
    where e: "exec self c = self\<lparr>target_split := s, target_data := d, target_size := n\<rparr>"
    by blast
  from Cons[of "exec self c"] obtain s' d' n'
    where r: "run (exec self c) calls
                = (exec self c)\<lparr>target_split := s', target_data := d', target_size := n'\<rparr>"
    by blast
  have "run self (c # calls) = (exec self c)\<lparr>target_split := s', target_data := d', target_size := n'\<rparr>"
    unfolding run_Cons by (rule r)
  also have "\<dots> = self\<lparr>target_split := s', target_data := d', target_size := n'\<rparr>"
    unfolding e by simp
  finally have "run self (c # calls) = self\<lparr>target_split := s', target_data := d', target_size := n'\<rparr>" .
  then show ?case by blast
qed

lemma set_split_consistent:
  "consistent self \<Longrightarrow> consistent (fst (set_split self name))"
  by (auto simp: consistent_def set_split_def split: option.splits if_splits)

lemma exec_consistent: "consistent self \<Longrightarrow> consistent (exec self c)"
  by (cases c) (simp_all add: set_split_consistent)

lemma run_consistent: "consistent self \<Longrightarrow> consistent (run self calls)"
  by (induction calls arbitrary: self) (simp_all add: run_def exec_consistent)


lemma init_consistent:
  assumes "TextDataset_init p1 p2 sw df vec lang = Inr self"
  shows "consistent self"
  using assms
  by (auto simp: TextDataset_init_def set_split_def Let_def consistent_def
           split: sum.splits prod.splits)

lemma reach_consistent:
  assumes "TextDataset_init p1 p2 sw df vec lang = Inr self0"
  shows "consistent (run self0 calls)"
  by (rule run_consistent) (rule init_consistent[OF assms])

lemma run_parts:
  "train_data (run self calls) = train_data self"
  "val_data (run self calls) = val_data self"
  "test_data (run self calls) = test_data self"
  "lookup_dict (run self calls) = lookup_dict self"
  "vectorizer (run self calls) = vectorizer self"
  "stopwords (run self calls) = stopwords self"
proof -
  from run_frame[of self calls] obtain s d n
    where r: "run self calls = self\<lparr>target_split := s, target_data := d, target_size := n\<rparr>"
    by blast
  show "train_data (run self calls) = train_data self"
    "val_data (run self calls) = val_data self"
    "test_data (run self calls) = test_data self"
    "lookup_dict (run self calls) = lookup_dict self"
    "vectorizer (run self calls) = vectorizer self"
    "stopwords (run self calls) = stopwords self"
    unfolding r by simp_all
qed

lemma set_split_valid:
  assumes c: "consistent self" and n: "name \<in> {''train'', ''val'', ''test''}"
  shows "snd (set_split self name) = Inr ()"
    and "target_data (fst (set_split self name))
           = (if name = ''train'' then train_data self
              else if name = ''val'' then val_data self else test_data self)"
    and "target_size (fst (set_split self name))
           = length (if name = ''train'' then train_data self
              else if name = ''val'' then val_data self else test_data self)"
    and "target_split (fst (set_split self name)) = name"
  using c n by (auto simp: consistent_def set_split_def)

lemma set_split_invalid:
  assumes c: "consistent self" and n: "name \<notin> {''train'', ''val'', ''test''}"
  shows "snd (set_split self name) = Inl (KeyError name)"
    and "target_data (fst (set_split self name)) = target_data self"
    and "target_size (fst (set_split self name)) = target_size self"
  using c n by (auto simp: consistent_def set_split_def)

text \<open>
  C9. Partition membership is fixed for the life of the object: after any sequence of
  \<^verbatim>\<open>set_split\<close>, size, \<^verbatim>\<open>get_item\<close> and \<^verbatim>\<open>generate_batches\<close> calls, failed ones included,
  the training, validation and test partitions and the dictionary that holds them are
  those the sequence started from. \<^verbatim>\<open>set_split\<close> changes nothing but the three target
  attributes, which length and indexing read, and the other calls change nothing.
\<close>

theorem partitions_fixed:
  "train_data (run self calls) = train_data self
   \<and> val_data (run self calls) = val_data self
   \<and> test_data (run self calls) = test_data self
   \<and> lookup_dict (run self calls) = lookup_dict self
   \<and> (\<exists>d n. fst (set_split self name)
               = self\<lparr>target_split := name, target_data := d, target_size := n\<rparr>)
   \<and> exec self Size = self \<and> exec self (Get_item index) = self
   \<and> exec self (Generate_batches permutation batch_size shuffle drop_last device) = self"
  using run_parts[of self calls] set_split_frame[of self name] by simp

text \<open>
  C2. For every instance, that is the constructed object after any sequence of calls,
  and every name among \<open>train\<close>, \<open>val\<close> and \<open>test\<close>: \<^verbatim>\<open>set_split\<close> of the name succeeds,
  and the size is then the record count of the partition of that name. Right after
  construction the active split is \<open>train\<close> and the size is the count of the training
  partition.
\<close>

theorem set_split_then_size:
  assumes "TextDataset_init p1 p2 sw df vec lang = Inr self0"
    and "self = run self0 calls"
    and "name \<in> {''train'', ''val'', ''test''}"
  shows "target_split self0 = ''train'' \<and> len self0 = length (train_data self0)
       \<and> snd (set_split self name) = Inr ()
       \<and> target_split (fst (set_split self name)) = name
       \<and> len (fst (set_split self name))
           = length (if name = ''train'' then train_data self0
                     else if name = ''val'' then val_data self0 else test_data self0)"
proof -
  have c0: "consistent self0" by (rule init_consistent[OF assms(1)])
  have c: "consistent self" unfolding assms(2) by (rule run_consistent[OF c0])
  have p: "train_data self = train_data self0" "val_data self = val_data self0"
    "test_data self = test_data self0"
    unfolding assms(2) by (rule run_parts)+
  have i: "target_split self0 = ''train''" "target_size self0 = length (train_data self0)"
    using init_fields(4,6)[OF assms(1)] by simp_all
  show ?thesis
    using set_split_valid[OF c assms(3)] i unfolding p len_def by simp
qed

text \<open>
  C3. For every instance, \<^verbatim>\<open>set_split\<close> of a name that is not \<open>train\<close>, \<open>val\<close> or
  \<open>test\<close> fails with the \<^verbatim>\<open>KeyError\<close> of the dictionary lookup (the spec's
  \<^verbatim>\<open>InvalidSplit\<close>), and \<^verbatim>\<open>set_split\<close> of one of the three names succeeds.
\<close>

theorem set_split_invalid_name:
  assumes "TextDataset_init p1 p2 sw df vec lang = Inr self0"
    and "self = run self0 calls"
  shows "(name \<notin> {''train'', ''val'', ''test''} \<longrightarrow>
            snd (set_split self name) = Inl (KeyError name))
       \<and> (name \<in> {''train'', ''val'', ''test''} \<longrightarrow>
            snd (set_split self name) = Inr ())"
proof -
  have "consistent self"
    unfolding assms(2) by (rule run_consistent) (rule init_consistent[OF assms(1)])
  then show ?thesis
    using set_split_valid(1)[of self name] set_split_invalid(1)[of self name] by blast
qed

lemma example_dataset_init:
  "TextDataset_init (rev [0..<18]) [0..<14] example_words (example_frame 18)
     example_vectorizer ''english'' = Inr example_dataset"
proof -
  have "\<not> isl (TextDataset_init (rev [0..<18]) [0..<14] example_words (example_frame 18)
             example_vectorizer ''english'')"
    by code_simp
  then show ?thesis unfolding example_dataset_def by simp
qed

lemma example_dataset_pos_init:
  "TextDataset_init (rev [0..<18]) [0..<14] example_words (example_frame 18)
     example_vectorizer_pos ''english'' = Inr example_dataset_pos"
proof -
  have "\<not> isl (TextDataset_init (rev [0..<18]) [0..<14] example_words (example_frame 18)
             example_vectorizer_pos ''english'')"
    by code_simp
  then show ?thesis unfolding example_dataset_pos_def by simp
qed

lemma example_dataset_sizes:
  "length (train_data example_dataset) = 10"
  "length (val_data example_dataset) = 4"
  "length (test_data example_dataset) = 4"
  by code_simp+

theorem set_split_then_size_witness:
  "TextDataset_init (rev [0..<18]) [0..<14] example_words (example_frame 18)
     example_vectorizer ''english'' = Inr example_dataset
   \<and> ''val'' \<in> {''train'', ''val'', ''test''}
   \<and> len example_dataset = 10
   \<and> snd (set_split (run example_dataset [Set_split ''test'', Size, Set_split ''dev'']) ''val'')
       = Inr ()
   \<and> len (fst (set_split (run example_dataset [Set_split ''test'', Size, Set_split ''dev''])
        ''val'')) = 4"
  using set_split_then_size[OF example_dataset_init refl,
      of "''val''" "[Set_split ''test'', Size, Set_split ''dev'']"]
  by (simp add: example_dataset_init example_dataset_sizes)

theorem set_split_invalid_name_witness:
  "TextDataset_init (rev [0..<18]) [0..<14] example_words (example_frame 18)
     example_vectorizer ''english'' = Inr example_dataset
   \<and> ''dev'' \<notin> {''train'', ''val'', ''test''}
   \<and> snd (set_split (run example_dataset [Set_split ''test'', Get_item 0]) ''dev'')
       = Inl (KeyError ''dev'')
   \<and> ''test'' \<in> {''train'', ''val'', ''test''}
   \<and> snd (set_split (run example_dataset [Set_split ''test'', Get_item 0]) ''test'') = Inr ()"
  using set_split_invalid_name[OF example_dataset_init refl,
      of "''dev''" "[Set_split ''test'', Get_item 0]"]
    set_split_invalid_name[OF example_dataset_init refl,
      of "''test''" "[Set_split ''test'', Get_item 0]"]
  by (simp add: example_dataset_init)

section \<open>Items\<close>

lemma iloc_out_of_bounds:
  "index \<ge> int (length df) \<or> index < - int (length df) \<Longrightarrow> iloc df index = Inl IndexError"
  by (auto simp: iloc_def Let_def)

lemma iloc_in_bounds:
  "0 \<le> index \<Longrightarrow> index < int (length df) \<Longrightarrow> iloc df index = Inr (df ! nat index)"
  by (simp add: iloc_def Let_def)

lemma iloc_negative:
  "- int (length df) \<le> index \<Longrightarrow> index < 0 \<Longrightarrow>
     iloc df index = Inr (df ! nat (int (length df) + index))"
  by (simp add: iloc_def Let_def add.commute)

lemma getitem_row:
  assumes "iloc (target_data self) index = Inr r"
  shows "getitem self index =
     (case label_vocab (vectorizer self) (row_label r) of
        None \<Rightarrow> Inl (UnknownLabel (row_label r))
      | Some k \<Rightarrow> Inr \<lparr>x_data = vectorize (vectorizer self)
                                  (string_processing (stopwords self) (row_text r)),
                      y_target = k\<rparr>)"
  using assms by (simp add: getitem_def lookup_token_def Let_def split: option.splits)

lemma reach_size:
  assumes "TextDataset_init p1 p2 sw df vec lang = Inr self0" and "self = run self0 calls"
  shows "len self = length (target_data self)"
  using reach_consistent[OF assms(1), of calls] assms(2) by (simp add: consistent_def len_def)

text \<open>
  C6, as amended. For every instance and every index that is at least the size of the
  active split or less than minus that size, \<^verbatim>\<open>get_item\<close> fails with \<^verbatim>\<open>IndexError\<close>
  (the spec's \<^verbatim>\<open>IndexOutOfRange\<close>); and for an index from 0 up to the size whose
  record's label is absent from the label vocabulary of the vectorizer, it fails with
  \<^verbatim>\<open>UnknownLabel\<close>.
\<close>

theorem getitem_errors:
  assumes "TextDataset_init p1 p2 sw df vec lang = Inr self0"
    and "self = run self0 calls"
  shows "(index \<ge> int (len self) \<or> index < - int (len self) \<longrightarrow>
            getitem self index = Inl IndexError)
       \<and> (0 \<le> index \<and> index < int (len self)
           \<and> label_vocab (vectorizer self) (row_label (target_data self ! nat index)) = None \<longrightarrow>
            getitem self index
              = Inl (UnknownLabel (row_label (target_data self ! nat index))))"
proof (intro conjI impI)
  note n = reach_size[OF assms]
  show "getitem self index = Inl IndexError"
    if "index \<ge> int (len self) \<or> index < - int (len self)"
    using iloc_out_of_bounds[of "target_data self" index] that n by (simp add: getitem_def)
  show "getitem self index = Inl (UnknownLabel (row_label (target_data self ! nat index)))"
    if h: "0 \<le> index \<and> index < int (len self)
       \<and> label_vocab (vectorizer self) (row_label (target_data self ! nat index)) = None"
  proof -
    have "iloc (target_data self) index = Inr (target_data self ! nat index)"
      using h n by (simp add: iloc_in_bounds)
    from getitem_row[OF this] h show ?thesis by simp
  qed
qed

text \<open>
  C10, as amended. For every instance whose active split has size \<open>n > 0\<close> and every
  index \<open>i\<close> with \<open>-n \<le> i \<le> -1\<close>: \<^verbatim>\<open>get_item(i)\<close> is \<^verbatim>\<open>get_item(n + i)\<close>; it does not
  fail with \<^verbatim>\<open>IndexError\<close>; it returns the features and the label index of the record
  at position \<open>n + i\<close> of the active split when the label of that record is in the
  vocabulary, and fails with \<^verbatim>\<open>UnknownLabel\<close> when it is not.
\<close>

theorem getitem_negative_index:
  assumes "TextDataset_init p1 p2 sw df vec lang = Inr self0"
    and "self = run self0 calls"
    and "0 < len self" and "- int (len self) \<le> i" and "i \<le> - 1"
  shows "getitem self i = getitem self (int (len self) + i)
       \<and> getitem self i \<noteq> Inl IndexError
       \<and> (\<forall>k. label_vocab (vectorizer self)
                  (row_label (target_data self ! nat (int (len self) + i))) = Some k \<longrightarrow>
              getitem self i
                = Inr \<lparr>x_data = vectorize (vectorizer self)
                                 (string_processing (stopwords self)
                                    (row_text (target_data self ! nat (int (len self) + i)))),
                       y_target = k\<rparr>)
       \<and> (label_vocab (vectorizer self)
             (row_label (target_data self ! nat (int (len self) + i))) = None \<longrightarrow>
            getitem self i
              = Inl (UnknownLabel (row_label (target_data self ! nat (int (len self) + i)))))"
proof -
  note n = reach_size[OF assms(1,2)]
  let ?j = "int (len self) + i"
  let ?r = "target_data self ! nat ?j"
  have a: "iloc (target_data self) i = Inr ?r"
    using iloc_negative[of "target_data self" i] assms(4,5) n by simp
  have b: "iloc (target_data self) ?j = Inr ?r"
    using iloc_in_bounds[of ?j "target_data self"] assms(4,5) n by simp
  have e: "getitem self i = getitem self ?j"
    unfolding getitem_row[OF a] getitem_row[OF b] ..
  have ne: "getitem self i \<noteq> Inl IndexError"
    unfolding getitem_row[OF a] by (simp split: option.splits)
  have r: "getitem self i
             = Inr \<lparr>x_data = vectorize (vectorizer self)
                              (string_processing (stopwords self) (row_text ?r)),
                    y_target = k\<rparr>"
    if "label_vocab (vectorizer self) (row_label ?r) = Some k" for k
    unfolding getitem_row[OF a] using that by simp
  have u: "getitem self i = Inl (UnknownLabel (row_label ?r))"
    if "label_vocab (vectorizer self) (row_label ?r) = None"
    unfolding getitem_row[OF a] using that by simp
  show ?thesis using e ne r u by blast
qed

lemma run_Nil: "run self [] = self"
  by (simp add: run_def)

lemma example_dataset_pos_len: "len example_dataset_pos = 10"
  by code_simp

lemma example_dataset_len: "len example_dataset = 10"
  by code_simp

lemma example_dataset_pos_label:
  "label_vocab (vectorizer example_dataset_pos)
     (row_label (target_data example_dataset_pos ! 0)) = None"
  "row_label (target_data example_dataset_pos ! 0) = ''neg''"
  "label_vocab (vectorizer example_dataset_pos) ''neg'' = None"
  by code_simp+

theorem getitem_errors_witness:
  "TextDataset_init (rev [0..<18]) [0..<14] example_words (example_frame 18)
     example_vectorizer_pos ''english'' = Inr example_dataset_pos
   \<and> len example_dataset_pos = 10
   \<and> getitem example_dataset_pos 10 = Inl IndexError
   \<and> getitem example_dataset_pos (- 11) = Inl IndexError
   \<and> label_vocab (vectorizer example_dataset_pos)
        (row_label (target_data example_dataset_pos ! 0)) = None
   \<and> getitem example_dataset_pos 0 = Inl (UnknownLabel ''neg'')"
  using getitem_errors[OF example_dataset_pos_init run_Nil[symmetric], of 10]
    getitem_errors[OF example_dataset_pos_init run_Nil[symmetric], of "- 11"]
    getitem_errors[OF example_dataset_pos_init run_Nil[symmetric], of 0]
  by (simp add: example_dataset_pos_init example_dataset_pos_len example_dataset_pos_label)

text \<open>
  C6, as stated, fails: the index \<open>-1\<close> is outside \<open>0 \<le> index < size\<close>, and
  \<^verbatim>\<open>get_item\<close> returns the item of the last record of the split for it.
\<close>

theorem getitem_in_range_counterexample:
  "len example_dataset = 10
   \<and> \<not> (0 \<le> (- 1 :: int) \<and> (- 1 :: int) < int (len example_dataset))
   \<and> getitem example_dataset (- 1) = Inr \<lparr>x_data = 15, y_target = 1\<rparr>
   \<and> getitem example_dataset (- 1) \<noteq> Inl IndexError"
  by code_simp

lemma example_val:
  "len (run example_dataset [Set_split ''val'']) = 4"
  "label_vocab (vectorizer (run example_dataset [Set_split ''val'']))
     (row_label (target_data (run example_dataset [Set_split ''val'']) ! 3)) = Some 1"
  "vectorize (vectorizer (run example_dataset [Set_split ''val'']))
     (string_processing (stopwords (run example_dataset [Set_split ''val'']))
        (row_text (target_data (run example_dataset [Set_split ''val'']) ! 3))) = 15"
  by code_simp+

theorem getitem_negative_index_witness:
  "TextDataset_init (rev [0..<18]) [0..<14] example_words (example_frame 18)
     example_vectorizer ''english'' = Inr example_dataset
   \<and> len (run example_dataset [Set_split ''val'']) = 4
   \<and> getitem (run example_dataset [Set_split ''val'']) (- 1)
       = getitem (run example_dataset [Set_split ''val'']) 3
   \<and> getitem (run example_dataset [Set_split ''val'']) (- 1)
       = Inr \<lparr>x_data = 15, y_target = 1\<rparr>
   \<and> TextDataset_init (rev [0..<18]) [0..<14] example_words (example_frame 18)
         example_vectorizer_pos ''english'' = Inr example_dataset_pos
   \<and> len example_dataset_pos = 10
   \<and> label_vocab (vectorizer example_dataset_pos)
        (row_label (target_data example_dataset_pos ! 0)) = None
   \<and> getitem example_dataset_pos (- 10) = Inl (UnknownLabel ''neg'')"
proof -
  let ?s = "run example_dataset [Set_split ''val'']"
  have h3: "0 < len ?s" and h4: "- int (len ?s) \<le> - 1" and h5: "(- 1 :: int) \<le> - 1"
    by (simp_all add: example_val(1))
  note t = getitem_negative_index[OF example_dataset_init refl h3 h4 h5]
  have a: "getitem ?s (- 1) = getitem ?s 3"
    using t by (simp add: example_val(1))
  have b: "getitem ?s (- 1) = Inr \<lparr>x_data = 15, y_target = 1\<rparr>"
    using t example_val by auto
  have g3: "0 < len example_dataset_pos"
    and g4: "- int (len example_dataset_pos) \<le> - 10" and g5: "(- 10 :: int) \<le> - 1"
    by (simp_all add: example_dataset_pos_len)
  note v = getitem_negative_index[OF example_dataset_pos_init run_Nil[symmetric] g3 g4 g5]
  have c: "getitem example_dataset_pos (- 10) = Inl (UnknownLabel ''neg'')"
    using v by (auto simp: example_dataset_pos_len example_dataset_pos_label)
  show ?thesis
    using a b c example_val(1) example_dataset_init example_dataset_pos_init
      example_dataset_pos_len example_dataset_pos_label(1)
    by blast
qed

text \<open>
  C10, as stated, fails: in a constructed instance whose training split has size 10,
  the index \<open>-10\<close> is in range, and \<^verbatim>\<open>get_item\<close> fails for it, with \<^verbatim>\<open>UnknownLabel\<close>,
  because the label of the first record is not in the vocabulary.
\<close>

theorem getitem_negative_index_counterexample:
  "len example_dataset_pos = 10
   \<and> 0 < len example_dataset_pos
   \<and> - int (len example_dataset_pos) \<le> - 10 \<and> (- 10 :: int) \<le> - 1
   \<and> getitem example_dataset_pos (- 10) = Inl (UnknownLabel ''neg'')
   \<and> isl (getitem example_dataset_pos (- 10))"
  by code_simp

section \<open>The sequence-length bound\<close>

lemma series_max_Max: "xs \<noteq> [] \<Longrightarrow> series_max xs = Some (Max (set xs))"
  by (cases xs) (simp_all flip: Max.set_eq_fold)

lemma seq_len_bound_nonempty:
  assumes "df \<noteq> []"
  shows "seq_len_bound df
           = Some (if 1000 < Max (set (map (\<lambda>r. length (row_text r)) df)) then 359
                   else Max (set (map (\<lambda>r. length (row_text r)) df)))"
proof -
  have "map (\<lambda>r. length (row_text r)) df \<noteq> []" using assms by simp
  from series_max_Max[OF this] show ?thesis
    by (simp add: seq_len_bound_def)
qed

lemma seq_len_bound_long:
  assumes "r \<in> set df" and "1000 < length (row_text r)"
  shows "seq_len_bound df = Some 359"
proof -
  from assms(1) have ne: "df \<noteq> []" by auto
  have "length (row_text r) \<le> Max (set (map (\<lambda>r. length (row_text r)) df))"
    using assms(1) by (intro Max_ge) auto
  with assms(2) have "1000 < Max (set (map (\<lambda>r. length (row_text r)) df))" by simp
  then show ?thesis by (simp add: seq_len_bound_nonempty[OF ne])
qed

text \<open>
  C8. The factory passes to the vectorizer factory, as the sequence-length bound, the
  greatest text length over the loaded records, except that it passes 359 whenever
  that maximum exceeds 1000: for a file whose longest text has more than 1000
  characters the bound is 359, and the vectorizer of the instance the factory returns
  is the one made with that bound.
\<close>

theorem factory_seq_len:
  assumes "read_csv text_csv = Inr df"
  shows "load_dataset_and_make_vectorizer read_csv from_dataframe p1 p2 sw text_csv mode
           = (case from_dataframe df mode (seq_len_bound df) of
                Inl e \<Rightarrow> Inl e
              | Inr vec \<Rightarrow> TextDataset_init p1 p2 sw df vec ''english'')
       \<and> (\<forall>self. load_dataset_and_make_vectorizer read_csv from_dataframe p1 p2 sw text_csv mode
                    = Inr self \<longrightarrow>
                  from_dataframe df mode (seq_len_bound df) = Inr (vectorizer self))
       \<and> (df \<noteq> [] \<longrightarrow>
            seq_len_bound df
              = Some (if 1000 < Max (set (map (\<lambda>r. length (row_text r)) df)) then 359
                      else Max (set (map (\<lambda>r. length (row_text r)) df))))
       \<and> ((\<exists>r\<in>set df. 1000 < length (row_text r)) \<longrightarrow> seq_len_bound df = Some 359)"
proof (intro conjI allI impI)
  show l: "load_dataset_and_make_vectorizer read_csv from_dataframe p1 p2 sw text_csv mode
           = (case from_dataframe df mode (seq_len_bound df) of
                Inl e \<Rightarrow> Inl e
              | Inr vec \<Rightarrow> TextDataset_init p1 p2 sw df vec ''english'')"
    using assms by (simp add: load_dataset_and_make_vectorizer_def)
  show "from_dataframe df mode (seq_len_bound df) = Inr (vectorizer self)"
    if "load_dataset_and_make_vectorizer read_csv from_dataframe p1 p2 sw text_csv mode = Inr self"
    for self
  proof (cases "from_dataframe df mode (seq_len_bound df)")
    case (Inl e)
    with l that show ?thesis by simp
  next
    case (Inr vec)
    with l that have "TextDataset_init p1 p2 sw df vec ''english'' = Inr self" by simp
    from init_fields(2)[OF this] Inr show ?thesis by simp
  qed
  show "seq_len_bound df
          = Some (if 1000 < Max (set (map (\<lambda>r. length (row_text r)) df)) then 359
                  else Max (set (map (\<lambda>r. length (row_text r)) df)))" if "df \<noteq> []"
    by (rule seq_len_bound_nonempty[OF that])
  show "seq_len_bound df = Some 359" if "\<exists>r\<in>set df. 1000 < length (row_text r)"
    using that seq_len_bound_long by blast
qed

lemma example_long_row:
  "example_long_frame ! 4 \<in> set example_long_frame"
  "length (row_text (example_long_frame ! 4)) = 1004"
  by (simp_all add: example_long_frame_def)

lemma example_load:
  "\<not> isl (load_dataset_and_make_vectorizer example_read_csv example_from_dataframe
             (rev [0..<5]) [0..<4] example_words ''long.csv'' ''onehot'')"
  by code_simp

theorem factory_seq_len_witness:
  "example_read_csv ''long.csv'' = Inr example_long_frame
   \<and> 1000 < length (row_text (example_long_frame ! 4))
   \<and> seq_len_bound example_long_frame = Some 359
   \<and> \<not> isl (load_dataset_and_make_vectorizer example_read_csv example_from_dataframe
               (rev [0..<5]) [0..<4] example_words ''long.csv'' ''onehot'')
   \<and> vectorize (vectorizer (projr (load_dataset_and_make_vectorizer example_read_csv
        example_from_dataframe (rev [0..<5]) [0..<4] example_words ''long.csv'' ''onehot'')))
        ''abc'' = 359"
proof -
  let ?l = "load_dataset_and_make_vectorizer example_read_csv example_from_dataframe
              (rev [0..<5]) [0..<4] example_words ''long.csv'' ''onehot''"
  have h: "example_read_csv ''long.csv'' = Inr example_long_frame"
    by (simp add: example_read_csv_def)
  note t = factory_seq_len[of example_read_csv "''long.csv''" example_long_frame
      example_from_dataframe "rev [0..<5]" "[0..<4]" example_words "''onehot''", OF h]
  have ex: "\<exists>r\<in>set example_long_frame. 1000 < length (row_text r)"
    using example_long_row by (intro bexI[of _ "example_long_frame ! 4"]) simp_all
  have ne: "example_long_frame \<noteq> []"
    using example_long_row(1) by auto
  have b: "seq_len_bound example_long_frame = Some 359"
    using t ex by blast
  have "?l = Inr (projr ?l)" using example_load by simp
  with t have "example_from_dataframe example_long_frame ''onehot''
                 (seq_len_bound example_long_frame) = Inr (vectorizer (projr ?l))"
    by blast
  then have "vectorizer (projr ?l)
               = \<lparr>vectorize = (\<lambda>s. 359), label_vocab = [''pos'' \<mapsto> 1, ''neg'' \<mapsto> 0]\<rparr>"
    unfolding b example_from_dataframe_def by simp
  then have v: "vectorize (vectorizer (projr ?l)) ''abc'' = 359"
    by simp
  show ?thesis
    using h b v example_load example_long_row(2) by simp
qed

section \<open>Batches of a pass\<close>

lemma batch_sampler_lengths:
  assumes "0 < b" and "length acc < b"
  shows "map length (batch_sampler b dl acc xs)
           = replicate ((length acc + length xs) div b) b
             @ (if dl \<or> (length acc + length xs) mod b = 0 then []
                else [(length acc + length xs) mod b])"
  using assms(2)
proof (induction xs arbitrary: acc)
  case Nil
  then show ?case by simp
next
  case (Cons x xs)
  show ?case
  proof (cases "Suc (length acc) = b")
    case True
    have m: "length acc + length (x # xs) = b + length xs" using True by simp
    have "map length (batch_sampler b dl acc (x # xs))
            = b # map length (batch_sampler b dl [] xs)"
      using True by simp
    also have "\<dots> = b # replicate (length xs div b) b
                       @ (if dl \<or> length xs mod b = 0 then [] else [length xs mod b])"
      using Cons.IH[of "[]"] assms(1) by simp
    also have "\<dots> = replicate ((b + length xs) div b) b
                       @ (if dl \<or> (b + length xs) mod b = 0 then [] else [(b + length xs) mod b])"
      using assms(1) by simp
    finally show ?thesis unfolding m .
  next
    case False
    with Cons.prems have lt: "length (acc @ [x]) < b" by simp
    have "map length (batch_sampler b dl acc (x # xs))
            = map length (batch_sampler b dl (acc @ [x]) xs)"
      using False by simp
    also note Cons.IH[OF lt]
    finally show ?thesis by simp
  qed
qed

lemma take_append_exact: "length ys = b \<Longrightarrow> take (b + k) (ys @ xs) = ys @ take k xs"
  by simp

lemma batch_sampler_concat:
  assumes "0 < b" and "length acc < b"
  shows "concat (batch_sampler b dl acc xs)
           = (if dl then take (length acc + length xs - (length acc + length xs) mod b) (acc @ xs)
              else acc @ xs)"
  using assms(2)
proof (induction xs arbitrary: acc)
  case Nil
  then show ?case by simp
next
  case (Cons x xs)
  show ?case
  proof (cases "Suc (length acc) = b")
    case True
    have m: "length acc + length (x # xs) = b + length xs" using True by simp
    have lb: "length (acc @ [x]) = b" using True by simp
    have "concat (batch_sampler b dl acc (x # xs))
            = (acc @ [x]) @ concat (batch_sampler b dl [] xs)"
      using True by simp
    also have "\<dots> = (acc @ [x])
                       @ (if dl then take (length xs - length xs mod b) xs else xs)"
      using Cons.IH[of "[]"] assms(1) by simp
    also have "\<dots> = (if dl then take (b + length xs - (b + length xs) mod b) ((acc @ [x]) @ xs)
                       else (acc @ [x]) @ xs)"
    proof -
      have "b + length xs - (b + length xs) mod b = b + (length xs - length xs mod b)"
        by simp
      then show ?thesis by (cases dl) (simp_all only: take_append_exact[OF lb] if_True if_False)
    qed
    finally show ?thesis unfolding m by simp
  next
    case False
    with Cons.prems have lt: "length (acc @ [x]) < b" by simp
    have "concat (batch_sampler b dl acc (x # xs))
            = concat (batch_sampler b dl (acc @ [x]) xs)"
      using False by simp
    also note Cons.IH[OF lt]
    finally show ?thesis by simp
  qed
qed

lemma fetch_ok:
  "\<forall>i\<in>set batch. \<not> isl (getitem self (int i)) \<Longrightarrow>
     fetch self batch = Inr (map (\<lambda>i. projr (getitem self (int i))) batch)"
  by (induction batch) (auto split: sum.splits)

lemma yield_batches_ok:
  assumes "available device"
    and "\<forall>batch\<in>set batches. \<forall>i\<in>set batch. \<not> isl (getitem self (int i))"
  shows "yield_batches available self device batches
           = (map (\<lambda>batch.
                 \<lparr>x_data = (x_data (default_collate
                              (map (\<lambda>i. projr (getitem self (int i))) batch)))
                              \<lparr>device_of := device\<rparr>,
                  y_target = (y_target (default_collate
                              (map (\<lambda>i. projr (getitem self (int i))) batch)))
                              \<lparr>device_of := device\<rparr>\<rparr>)
                batches, None)"
  using assms(2)
proof (induction batches)
  case Nil
  then show ?case by simp
next
  case (Cons batch batches)
  then have f: "fetch self batch = Inr (map (\<lambda>i. projr (getitem self (int i))) batch)"
    by (simp add: fetch_ok)
  from Cons show ?case by (simp add: f Let_def to_device_def assms(1))
qed

lemma zip_columns:
  "map (\<lambda>(x, y). \<lparr>x_data = x, y_target = y\<rparr>) (zip (map x_data ds) (map y_target ds)) = ds"
  by (induction ds) simp_all

lemma collated_batch:
  "batch_items \<lparr>x_data = (x_data (default_collate ds))\<lparr>device_of := device\<rparr>,
                 y_target = (y_target (default_collate ds))\<lparr>device_of := device\<rparr>\<rparr> = ds"
  "batch_len \<lparr>x_data = (x_data (default_collate ds))\<lparr>device_of := device\<rparr>,
               y_target = (y_target (default_collate ds))\<lparr>device_of := device\<rparr>\<rparr> = length ds"
  by (simp_all add: batch_items_def batch_len_def default_collate_def zip_columns)

lemma getitem_ok:
  assumes "i < length (target_data self)"
    and "label_vocab (vectorizer self) (row_label (target_data self ! i)) \<noteq> None"
  shows "\<not> isl (getitem self (int i))"
proof -
  have "iloc (target_data self) (int i) = Inr (target_data self ! i)"
    using assms(1) iloc_in_bounds[of "int i" "target_data self"] by simp
  from getitem_row[OF this] assms(2) show ?thesis by (auto split: option.splits)
qed

text \<open>
  C7, as amended. For an instance whose records of the active split all have their
  label in the vocabulary, a device that can be used, a positive batch size and, when
  shuffling, a drawn permutation of the positions: the pass is finite and ends without
  an exception; its batches have \<open>batch_size\<close> items each, followed by one of
  \<open>n mod batch_size\<close> items when that is not zero and \<open>drop_last\<close> is not set; their
  items, in order, are the items of the sampled positions, all of them unless
  \<open>drop_last\<close> cuts the undersized rest; and each tensor is on the device asked for.
  For a split of size 10 and batches of 4 this is 2 batches of 4 items with
  \<open>drop_last\<close>, and 3 batches of 4, 4 and 2 items without.
\<close>

theorem generate_batches_covers:
  assumes "TextDataset_init p1 p2 sw df vec lang = Inr self0"
    and "self = run self0 calls"
    and "\<forall>r\<in>set (target_data self). label_vocab (vectorizer self) (row_label r) \<noteq> None"
    and "0 < batch_size"
    and "shuffle \<longrightarrow> mset permutation = mset [0..<len self]"
    and "available device"
  shows "\<exists>bs. generate_batches permutation available self batch_size shuffle drop_last device
              = (bs, None)
     \<and> map batch_len bs
         = replicate (len self div batch_size) batch_size
           @ (if drop_last \<or> len self mod batch_size = 0 then [] else [len self mod batch_size])
     \<and> map Inr (concat (map batch_items bs))
         = map (\<lambda>i. getitem self (int i))
             (take (if drop_last then len self - len self mod batch_size else len self)
                (if shuffle then permutation else [0..<len self]))
     \<and> (\<forall>b\<in>set bs. device_of (x_data b) = device \<and> device_of (y_target b) = device)
     \<and> (len self = 10 \<and> batch_size = 4 \<longrightarrow>
          map batch_len bs = (if drop_last then [4, 4] else [4, 4, 2]))"
proof -
  let ?n = "len self"
  let ?sampler = "if shuffle then permutation else [0..<?n]"
  let ?batches = "batch_sampler batch_size drop_last [] ?sampler"
  let ?item = "\<lambda>i. projr (getitem self (int i))"
  let ?out = "\<lambda>batch. \<lparr>x_data = (x_data (default_collate (map ?item batch)))
                                    \<lparr>device_of := device\<rparr>,
                         y_target = (y_target (default_collate (map ?item batch)))
                                    \<lparr>device_of := device\<rparr>\<rparr>"
  let ?bs = "map ?out ?batches"
  note n = reach_size[OF assms(1,2)]
  have ms: "mset ?sampler = mset [0..<?n]"
    using assms(5) by simp
  have ls: "length ?sampler = ?n"
    using mset_eq_length[OF ms] by simp
  have ss: "set ?sampler = {0..<?n}"
    using mset_eq_setD[OF ms] by simp
  have cc: "concat ?batches
              = take (if drop_last then ?n - ?n mod batch_size else ?n) ?sampler"
    using batch_sampler_concat[OF assms(4), of "[]" drop_last ?sampler] assms(4) ls
    by (cases drop_last) simp_all
  have ok: "\<not> isl (getitem self (int i))" if "i < ?n" for i
  proof (rule getitem_ok)
    show "i < length (target_data self)" using that n by simp
    then have "target_data self ! i \<in> set (target_data self)" by simp
    with assms(3) show "label_vocab (vectorizer self) (row_label (target_data self ! i)) \<noteq> None"
      by blast
  qed
  have inb: "i < ?n" if "batch \<in> set ?batches" and "i \<in> set batch" for batch i
  proof -
    from that have "i \<in> set (concat ?batches)" by auto
    then have "i \<in> set ?sampler" unfolding cc by (rule in_set_takeD)
    then show ?thesis unfolding ss by simp
  qed
  have pre: "\<forall>batch\<in>set ?batches. \<forall>i\<in>set batch. \<not> isl (getitem self (int i))"
    using ok inb by blast
  have "generate_batches permutation available self batch_size shuffle drop_last device
          = yield_batches available self device ?batches"
    using assms(4) by (simp add: generate_batches_def Let_def)
  also have "\<dots> = (?bs, None)"
    by (rule yield_batches_ok[where available = available and device = device,
          OF assms(6) pre])
  finally have y: "generate_batches permutation available self batch_size shuffle drop_last
                     device = (?bs, None)" .
  have lens: "map batch_len ?bs = map length ?batches"
    by (simp add: collated_batch(2) comp_def)
  also have "\<dots> = replicate (?n div batch_size) batch_size
                    @ (if drop_last \<or> ?n mod batch_size = 0 then [] else [?n mod batch_size])"
    using batch_sampler_lengths[OF assms(4), of "[]" drop_last ?sampler] assms(4) ls by simp
  finally have sizes: "map batch_len ?bs
      = replicate (?n div batch_size) batch_size
        @ (if drop_last \<or> ?n mod batch_size = 0 then [] else [?n mod batch_size])" .
  have "concat (map batch_items ?bs) = map ?item (concat ?batches)"
    by (simp add: collated_batch(1) comp_def map_concat)
  then have "map Inr (concat (map batch_items ?bs))
               = map (\<lambda>i. Inr (?item i)) (concat ?batches)"
    by simp
  also have "\<dots> = map (\<lambda>i. getitem self (int i)) (concat ?batches)"
  proof (rule map_cong[OF refl])
    fix i assume "i \<in> set (concat ?batches)"
    then have "i < ?n" using inb by auto
    from ok[OF this] show "Inr (?item i) = getitem self (int i)" by simp
  qed
  finally have items: "map Inr (concat (map batch_items ?bs))
      = map (\<lambda>i. getitem self (int i))
          (take (if drop_last then ?n - ?n mod batch_size else ?n) ?sampler)"
    unfolding cc .
  have dev: "\<forall>b\<in>set ?bs. device_of (x_data b) = device \<and> device_of (y_target b) = device"
    by auto
  have ten: "map batch_len ?bs = (if drop_last then [4, 4] else [4, 4, 2])"
    if "?n = 10 \<and> batch_size = 4"
    unfolding sizes using that by (simp add: numeral_2_eq_2)
  show ?thesis
    by (intro exI[of _ ?bs] conjI) (rule y, rule sizes, rule items, rule dev, use ten in blast)
qed

lemma example_dataset_labels:
  "\<forall>r\<in>set (target_data example_dataset).
     label_vocab (vectorizer example_dataset) (row_label r) \<noteq> None"
  by code_simp

theorem generate_batches_covers_witness:
  "TextDataset_init (rev [0..<18]) [0..<14] example_words (example_frame 18)
     example_vectorizer ''english'' = Inr example_dataset
   \<and> len example_dataset = 10
   \<and> mset (rev [0..<10]) = mset [0..<len example_dataset]
   \<and> example_devices ''cpu''
   \<and> snd (generate_batches (rev [0..<10]) example_devices example_dataset 4 True True ''cpu'')
       = None
   \<and> map batch_len
        (fst (generate_batches (rev [0..<10]) example_devices example_dataset 4 True True ''cpu''))
       = [4, 4]
   \<and> snd (generate_batches (rev [0..<10]) example_devices example_dataset 4 True False ''cpu'')
       = None
   \<and> map batch_len
        (fst (generate_batches (rev [0..<10]) example_devices example_dataset 4 True False ''cpu''))
       = [4, 4, 2]"
proof -
  have h4: "0 < (4 :: nat)" by simp
  have m: "mset (rev [0..<10]) = mset [0..<len example_dataset]"
    by (simp add: example_dataset_len)
  then have h5: "True \<longrightarrow> mset (rev [0..<10]) = mset [0..<len example_dataset]"
    by simp
  have h6: "example_devices ''cpu''"
    by (simp add: example_devices_def)
  note t = generate_batches_covers[where available = example_devices and device = "''cpu''",
      OF example_dataset_init run_Nil[symmetric] example_dataset_labels h4 h5 h6]
  from t[where drop_last = True] obtain bs
    where a: "generate_batches (rev [0..<10]) example_devices example_dataset 4 True True ''cpu''
                = (bs, None)"
      and b: "len example_dataset = 10 \<and> (4 :: nat) = 4 \<longrightarrow>
                map batch_len bs = (if True then [4, 4] else [4, 4, 2])"
    by blast
  from t[where drop_last = False] obtain cs
    where c: "generate_batches (rev [0..<10]) example_devices example_dataset 4 True False ''cpu''
                = (cs, None)"
      and d: "len example_dataset = 10 \<and> (4 :: nat) = 4 \<longrightarrow>
                map batch_len cs = (if False then [4, 4] else [4, 4, 2])"
    by blast
  show ?thesis
    using b d m h6 unfolding a c by (simp add: example_dataset_init example_dataset_len)
qed

text \<open>
  C7, as stated, fails. A split of size 10 whose first record has a label the vocabulary
  does not hold yields no batch: the pass stops with \<^verbatim>\<open>UnknownLabel\<close>. And a split of
  size 10 whose labels are all known yields no batch either when the device cannot be
  used: the pass stops with \<^verbatim>\<open>RuntimeError\<close>.
\<close>

theorem generate_batches_counterexample:
  "len example_dataset_pos = 10
   \<and> generate_batches [] example_devices example_dataset_pos 4 False True ''cpu''
       = ([], Some (UnknownLabel ''neg''))
   \<and> generate_batches [] example_devices example_dataset_pos 4 False False ''cpu''
       = ([], Some (UnknownLabel ''neg''))
   \<and> len example_dataset = 10
   \<and> generate_batches [] example_devices example_dataset 4 False True ''cuda''
       = ([], Some RuntimeError)
   \<and> generate_batches [] example_devices example_dataset 4 False False ''cuda''
       = ([], Some RuntimeError)"
  by code_simp

end
